theory Spec2Isabelle
  imports Complex_Main "HOL-Library.Sublist"
begin

section \<open>The Prompter scheduler\<close>

text \<open>
  A shallow embedding of the class \<open>Prompter\<close>: its constants, its fields as a record,
  and one HOL function per method. JavaScript numbers that hold counts and indices are
  \<open>nat\<close> or \<open>int\<close>; the throttle's float and the backoff power are idealised as
  \<open>real\<close>. The value of \<open>Math.random()\<close> is a parameter. Timer periods are not
  modelled: a tick is an event, and an \<open>await\<close> splits a callback into the part before
  and the part after the promise settles, so that other callbacks can run in between.
\<close>

subsection \<open>Constants\<close>

definition STEP_SIZE_MIN :: real where
  "STEP_SIZE_MIN = 1"

definition STEP_SIZE_MAX :: real where
  "STEP_SIZE_MAX = 32"

definition STEP_POSITIVE_AMOUNT :: real where
  "STEP_POSITIVE_AMOUNT = 0.1"

definition STEP_NEGATIVE_AMOUNT :: real where
  "STEP_NEGATIVE_AMOUNT = - 0.5"

definition RETRY_COUNT :: nat where
  "RETRY_COUNT = 10"

definition RETRY_MIN :: real where
  "RETRY_MIN = 1"

definition RETRY_MULTIPLIER :: real where
  "RETRY_MULTIPLIER = 1.85"

definition RETRY_ERRORS :: "string list" where
  "RETRY_ERRORS = [''408'', ''429'', ''503'', ''529'']"

subsection \<open>Data\<close>

text \<open>
  A \<open>Prompt\<close> is a JavaScript object: the queue and the callbacks hold references to
  it, and \<open>schedule_prompt\<close> mutates it in place. Objects live in a store, and a
  reference is an address.
\<close>

type_synonym addr = nat

record Prompt =
  id' :: int
  system :: string
  user :: string
  retries :: nat

text \<open>
  An element of the array \<open>queue\<close>: \<open>null\<close>, a reference to a prompt, or
  \<open>undefined\<close>, which is what JavaScript reads at an index outside an array.
\<close>

datatype slot = Null | Undefined | Ref addr

record Data =
  done' :: bool
  data :: "addr list"

record NetworkError =
  message :: string
  code :: string

text \<open>What \<open>runner.chat\<close> throws: a \<open>NetworkError\<close>, or anything else (with its message).\<close>

datatype thrown = NetworkErr NetworkError | OtherErr string

datatype outcome = Resolved string | Rejected thrown

datatype error = TypeError

datatype log_entry =
    CouldntFindClosestIndex addr
  | ReachedMaximumRetries addr
  | UnknownNetworkError slot NetworkError
  | UnknownError slot string

text \<open>
  The fields of \<open>Prompter\<close>. An interval field is \<open>True\<close> from the \<open>setInterval\<close>
  that assigns it to the \<open>clearInterval\<close> of its handle; \<open>aborted\<close> is the abort
  controller's signal; \<open>resolved\<close> is the value the promise of \<open>start\<close> was resolved
  with, if any; \<open>console\<close> collects what \<open>console.log\<close> printed; \<open>heap\<close> is the
  store of the prompt objects.
\<close>

record Prompter =
  queue :: "slot list"
  queue_size :: nat
  queue_count :: nat
  step_index :: int
  step_size_float :: real
  step_size_int :: int
  load_interval :: bool
  load_cursor :: int
  load_limit :: nat
  load_threshold :: nat
  chat_interval :: bool
  chat_active :: int
  wait_interval :: bool
  aborted :: bool
  resolved :: "bool option"
  console :: "log_entry list"
  heap :: "addr \<Rightarrow> Prompt"

subsection \<open>JavaScript arrays\<close>

text \<open>Reading outside the array gives \<open>undefined\<close>; writing outside extends it.\<close>

definition js_get :: "slot list \<Rightarrow> nat \<Rightarrow> slot" where
  "js_get q i = (if i < length q then q ! i else Undefined)"

definition js_set :: "slot list \<Rightarrow> nat \<Rightarrow> slot \<Rightarrow> slot list" where
  "js_set q i v =
     (if i < length q then q[i := v] else q @ replicate (i - length q) Undefined @ [v])"

definition js_elem :: "addr list \<Rightarrow> nat \<Rightarrow> slot" where
  "js_elem prompts i = (if i < length prompts then Ref (prompts ! i) else Undefined)"

subsection \<open>Construction and lifecycle\<close>

definition constructor :: "nat \<Rightarrow> (addr \<Rightarrow> Prompt) \<Rightarrow> Prompter" where
  "constructor rpm h =
     \<lparr> queue = replicate (rpm * 2) Null,
       queue_size = rpm * 2,
       queue_count = 0,
       step_index = 0,
       step_size_float = 0,
       step_size_int = 0,
       load_interval = False,
       load_cursor = 0,
       load_limit = rpm div 4,
       load_threshold = (rpm div 4 + 1) div 2,
       chat_interval = False,
       chat_active = 0,
       wait_interval = False,
       aborted = False,
       resolved = None,
       console = [],
       heap = h \<rparr>"

definition start :: "Prompter \<Rightarrow> Prompter" where
  "start s = s\<lparr>load_interval := True, chat_interval := True\<rparr>"

text \<open>A promise is settled once: a later call of its \<open>resolve\<close> changes nothing.\<close>

definition resolve :: "bool \<Rightarrow> Prompter \<Rightarrow> Prompter" where
  "resolve v s = (case resolved s of None \<Rightarrow> s\<lparr>resolved := Some v\<rparr> | Some r \<Rightarrow> s)"

definition setup_wait_interval :: "Prompter \<Rightarrow> Prompter" where
  "setup_wait_interval s = s\<lparr>wait_interval := True\<rparr>"

definition wait_tick :: "Prompter \<Rightarrow> Prompter" where
  "wait_tick s =
     (if chat_active s = 0 then resolve True (s\<lparr>wait_interval := False\<rparr>) else s)"

definition abort :: "Prompter \<Rightarrow> Prompter" where
  "abort s =
     resolve False
       (s\<lparr>chat_interval := False, load_interval := False, wait_interval := False,
          aborted := True\<rparr>)"

subsection \<open>The timeline\<close>

function push_loop :: "addr list \<Rightarrow> nat \<Rightarrow> nat \<Rightarrow> Prompter \<Rightarrow> Prompter" where
  "push_loop prompts prompt_index queue_index s =
     (if queue_index < queue_size s then
        (if js_get (queue s) queue_index = Null then
           (if int prompt_index = int (length prompts) - 1
            then s\<lparr>queue := js_set (queue s) queue_index (js_elem prompts prompt_index),
                   queue_count := queue_count s + 1,
                   load_cursor := id' (heap s (prompts ! prompt_index))\<rparr>
            else push_loop prompts (prompt_index + 1) (queue_index + 1)
                   (s\<lparr>queue := js_set (queue s) queue_index (js_elem prompts prompt_index),
                      queue_count := queue_count s + 1\<rparr>))
         else push_loop prompts prompt_index (queue_index + 1) s)
      else s)"
  by pat_completeness auto
termination
  by (relation "measure (\<lambda>(prompts, prompt_index, queue_index, s). queue_size s - queue_index)")
    auto

declare push_loop.simps [simp del]

definition push_prompts_to_queue :: "addr list \<Rightarrow> Prompter \<Rightarrow> Prompter" where
  "push_prompts_to_queue prompts s = push_loop prompts 0 0 s"

function shift_loop :: "nat \<Rightarrow> nat \<Rightarrow> slot list \<Rightarrow> slot list" where
  "shift_loop qsize queue_index q =
     (if int queue_index < int qsize - 1
      then shift_loop qsize (queue_index + 1) (js_set q queue_index (js_get q (queue_index + 1)))
      else q)"
  by pat_completeness auto
termination
  by (relation "measure (\<lambda>(qsize, queue_index, q). qsize - queue_index)") auto

declare shift_loop.simps [simp del]

definition shift_queue :: "Prompter \<Rightarrow> Prompter" where
  "shift_queue s =
     s\<lparr>queue := js_set (shift_loop (queue_size s) 0 (queue s)) (queue_size s) Null\<rparr>"

subsection \<open>The throttle\<close>

definition update_step_size :: "real \<Rightarrow> Prompter \<Rightarrow> Prompter" where
  "update_step_size v s =
     s\<lparr>step_size_float :=
         (if v > 0 then min (step_size_float s + v) STEP_SIZE_MAX
          else max (step_size_float s + v) STEP_SIZE_MIN),
       step_size_int :=
         round (if v > 0 then min (step_size_float s + v) STEP_SIZE_MAX
                else max (step_size_float s + v) STEP_SIZE_MIN)\<rparr>"

definition increment_step_index :: "Prompter \<Rightarrow> Prompter" where
  "increment_step_index s =
     s\<lparr>step_size_int := (if step_size_int s = step_index s then 0 else step_size_int s + 1)\<rparr>"

subsection \<open>Retry placement\<close>

text \<open>
  The argument of \<open>Math.min\<close> in \<open>find_closest_queue_index\<close>:
  \<open>Math.floor((prompt.retries + RETRY_MIN) ** RETRY_MULTIPLIER * (0.75 + Math.random() * 0.25))\<close>,
  with \<open>random\<close> the value of \<open>Math.random()\<close>.
\<close>

definition retry_delay :: "nat \<Rightarrow> real \<Rightarrow> nat" where
  "retry_delay r random =
     nat \<lfloor>(real r + RETRY_MIN) powr RETRY_MULTIPLIER * (0.75 + random * 0.25)\<rfloor>"

function higher_loop :: "slot list \<Rightarrow> nat \<Rightarrow> nat \<Rightarrow> nat option" where
  "higher_loop q qsize higher_index =
     (if higher_index < qsize
      then (if js_get q higher_index = Null then Some higher_index
            else higher_loop q qsize (higher_index + 1))
      else None)"
  by pat_completeness auto
termination
  by (relation "measure (\<lambda>(q, qsize, higher_index). qsize - higher_index)") auto

declare higher_loop.simps [simp del]

function lower_loop :: "slot list \<Rightarrow> nat \<Rightarrow> nat option" where
  "lower_loop q lower_index =
     (if lower_index > 0
      then (if js_get q lower_index = Null then Some lower_index
            else lower_loop q (lower_index - 1))
      else None)"
  by pat_completeness auto
termination
  by (relation "measure (\<lambda>(q, lower_index). lower_index)") auto

declare lower_loop.simps [simp del]

text \<open>
  The constant \<open>exact_index\<close> of \<open>find_closest_queue_index\<close>, from the value
  \<open>delay\<close> of the floor: \<open>Math.min(delay, this.queue_size)\<close>.
\<close>

definition exact_index :: "Prompter \<Rightarrow> nat \<Rightarrow> nat" where
  "exact_index s delay = min delay (queue_size s)"

text \<open>
  The search of \<open>find_closest_queue_index\<close> from \<open>delay\<close>: the test of the slot
  at \<open>exact_index\<close>, the upward loop and the downward loop.
\<close>

definition find_closest_from :: "Prompter \<Rightarrow> nat \<Rightarrow> nat option" where
  "find_closest_from s delay =
     (if js_get (queue s) (exact_index s delay) = Null
      then Some (exact_index s delay)
      else (case (if exact_index s delay < queue_size s
                  then higher_loop (queue s) (queue_size s) (exact_index s delay + 1)
                  else None) of
              Some higher_index \<Rightarrow> Some higher_index
            | None \<Rightarrow>
                (if exact_index s delay > 0
                 then lower_loop (queue s) (exact_index s delay - 1)
                 else None)))"

definition find_closest_queue_index :: "Prompter \<Rightarrow> addr \<Rightarrow> real \<Rightarrow> nat option" where
  "find_closest_queue_index s prompt random =
     find_closest_from s (retry_delay (retries (heap s prompt)) random)"

definition schedule_prompt :: "addr \<Rightarrow> real \<Rightarrow> Prompter \<Rightarrow> Prompter" where
  "schedule_prompt prompt random s =
     (if retries (heap s prompt) < RETRY_COUNT then
        (case find_closest_queue_index s prompt random of
           None \<Rightarrow> s\<lparr>console := console s @ [CouldntFindClosestIndex prompt]\<rparr>
         | Some queue_index \<Rightarrow>
             s\<lparr>queue := js_set (queue s) queue_index (Ref prompt),
               heap := (heap s)
                 (prompt := (heap s prompt)\<lparr>retries := retries (heap s prompt) + 1\<rparr>)\<rparr>)
      else s\<lparr>console := console s @ [ReachedMaximumRetries prompt]\<rparr>)"

subsection \<open>Sending\<close>

definition should_retry :: "NetworkError \<Rightarrow> bool" where
  "should_retry e = (code e \<in> set RETRY_ERRORS \<or> sublist ''tokens'' (message e))"

text \<open>
  \<open>send_prompt\<close> up to its \<open>await\<close>, and from the moment \<open>runner.chat\<close> settles with
  \<open>result\<close>. Reading \<open>prompt.retries\<close> of \<open>null\<close> or \<open>undefined\<close> throws a
  \<open>TypeError\<close> out of the \<open>catch\<close> block, past the decrement.
\<close>

definition send_start :: "Prompter \<Rightarrow> Prompter" where
  "send_start s = s\<lparr>chat_active := chat_active s + 1\<rparr>"

definition settle :: "slot \<Rightarrow> outcome \<Rightarrow> real \<Rightarrow> Prompter \<Rightarrow> error + Prompter" where
  "settle prompt result random s =
     (case result of
        Resolved output \<Rightarrow> Inr (update_step_size STEP_POSITIVE_AMOUNT s)
      | Rejected (NetworkErr e) \<Rightarrow>
          (if should_retry e then
             (case prompt of
                Ref p \<Rightarrow> Inr (schedule_prompt p random (update_step_size STEP_NEGATIVE_AMOUNT s))
              | Null \<Rightarrow> Inl TypeError
              | Undefined \<Rightarrow> Inl TypeError)
           else Inr (abort (s\<lparr>console := console s @ [UnknownNetworkError prompt e]\<rparr>)))
      | Rejected (OtherErr m) \<Rightarrow>
          Inr (abort (s\<lparr>console := console s @ [UnknownError prompt m]\<rparr>)))"

definition send_finish :: "slot \<Rightarrow> outcome \<Rightarrow> real \<Rightarrow> Prompter \<Rightarrow> error + Prompter" where
  "send_finish prompt result random s =
     (case settle prompt result random s of
        Inl e \<Rightarrow> Inl e
      | Inr s' \<Rightarrow> Inr (s'\<lparr>chat_active := chat_active s' - 1\<rparr>))"

definition send_prompt :: "slot \<Rightarrow> outcome \<Rightarrow> real \<Rightarrow> Prompter \<Rightarrow> error + Prompter" where
  "send_prompt prompt result random s = send_finish prompt result random (send_start s)"

subsection \<open>The periodic tasks\<close>

text \<open>
  The scheduler with its suspended callbacks: the calls of \<open>runner.chat\<close> that have not
  settled (each with the prompt it was given) and the number of calls of
  \<open>database.load\<close> that have not settled.
\<close>

record World =
  prompter :: Prompter
  in_flight :: "slot list"
  loading :: nat

definition load_tick :: "World \<Rightarrow> World" where
  "load_tick w =
     (if queue_count (prompter w) \<ge> load_threshold (prompter w) then w
      else w\<lparr>loading := loading w + 1\<rparr>)"

definition load_settled :: "Data \<Rightarrow> Prompter \<Rightarrow> Prompter" where
  "load_settled response s =
     (if done' response then setup_wait_interval (s\<lparr>load_interval := False\<rparr>)
      else push_prompts_to_queue (data response) s)"

definition chat_tick :: "World \<Rightarrow> World" where
  "chat_tick w =
     (if queue_count (prompter w) > 0 then
        (if step_index (prompter w) = 0 \<and> js_get (queue (prompter w)) 0 \<noteq> Null
         then w\<lparr>prompter := send_start (prompter w),
                in_flight := in_flight w @ [js_get (queue (prompter w)) 0]\<rparr>
         else w\<lparr>prompter := shift_queue (increment_step_index (prompter w))\<rparr>)
      else w)"

definition chat_settled :: "nat \<Rightarrow> outcome \<Rightarrow> real \<Rightarrow> World \<Rightarrow> error + World" where
  "chat_settled i result random w =
     (case send_finish (in_flight w ! i) result random (prompter w) of
        Inl e \<Rightarrow> Inl e
      | Inr s \<Rightarrow>
          Inr (w\<lparr>prompter := shift_queue (increment_step_index s),
                 in_flight := take i (in_flight w) @ drop (Suc i) (in_flight w)\<rparr>))"

text \<open>
  An event is a firing of one of the three timers or the settling of a suspended call.
  An event that cannot happen in a world (a cleared timer, no such suspended call)
  leaves it as it is.
\<close>

datatype event =
    LoadTick
  | LoadSettled Data
  | ChatTick
  | ChatSettled nat outcome real
  | WaitTick

fun step :: "event \<Rightarrow> World \<Rightarrow> error + World" where
  "step LoadTick w = Inr (if load_interval (prompter w) then load_tick w else w)"
| "step (LoadSettled response) w =
     Inr (if loading w > 0
          then w\<lparr>prompter := load_settled response (prompter w), loading := loading w - 1\<rparr>
          else w)"
| "step ChatTick w = Inr (if chat_interval (prompter w) then chat_tick w else w)"
| "step (ChatSettled i result random) w =
     (if i < length (in_flight w) then chat_settled i result random w else Inr w)"
| "step WaitTick w =
     Inr (if wait_interval (prompter w) then w\<lparr>prompter := wait_tick (prompter w)\<rparr> else w)"

fun run :: "event list \<Rightarrow> World \<Rightarrow> error + World" where
  "run [] w = Inr w"
| "run (e # es) w = (case step e w of Inl x \<Rightarrow> Inl x | Inr w' \<Rightarrow> run es w')"

definition boot :: "nat \<Rightarrow> (addr \<Rightarrow> Prompt) \<Rightarrow> World" where
  "boot rpm h = \<lparr> prompter = start (constructor rpm h), in_flight = [], loading = 0 \<rparr>"

text \<open>The number of slots of the timeline that are not empty.\<close>

definition occupied :: "Prompter \<Rightarrow> nat" where
  "occupied s = length (filter (\<lambda>i. js_get (queue s) i \<noteq> Null) [0..<queue_size s])"

text \<open>A store for examples: the object at address \<open>a\<close> is a fresh prompt with id \<open>a + 1\<close>.\<close>

definition example_heap :: "addr \<Rightarrow> Prompt" where
  "example_heap a = \<lparr> id' = int a + 1, system = [], user = [], retries = 0 \<rparr>"

section \<open>The backoff power\<close>

lemma multiplier_fraction: "RETRY_MULTIPLIER = 37 / 20"
  by (simp add: RETRY_MULTIPLIER_def)

lemma powr_multiplier_power:
  assumes "0 < (x::real)"
  shows "(x powr (37 / 20)) ^ 20 = x ^ 37"
proof -
  have pos: "0 < x powr (37 / 20)" using assms by simp
  have "(x powr (37 / 20)) ^ 20 = (x powr (37 / 20)) powr (real 20)"
    using pos by (rule powr_realpow [symmetric])
  also have "\<dots> = x powr (37 / 20 * real 20)" by (rule powr_powr)
  also have "37 / 20 * real 20 = real 37" by simp
  also have "x powr (real 37) = x ^ 37" using assms by (rule powr_realpow)
  finally show ?thesis .
qed

lemma powr_lower:
  assumes "0 < (x::real)" "0 \<le> c" "c ^ 20 \<le> x ^ 37"
  shows "c \<le> x powr (37 / 20)"
proof (rule ccontr)
  assume "\<not> c \<le> x powr (37 / 20)"
  then have "x powr (37 / 20) < c" by simp
  then have "(x powr (37 / 20)) ^ 20 < c ^ 20"
    by (rule power_strict_mono) simp_all
  then show False using assms(1,3) by (simp only: powr_multiplier_power)
qed

lemma powr_upper:
  assumes "0 < (x::real)" "0 \<le> c" "x ^ 37 < c ^ 20"
  shows "x powr (37 / 20) < c"
proof (rule ccontr)
  assume "\<not> x powr (37 / 20) < c"
  then have "c \<le> x powr (37 / 20)" by simp
  then have "c ^ 20 \<le> (x powr (37 / 20)) ^ 20"
    using assms(2) by (rule power_mono)
  then show False using assms(1,3) by (simp only: powr_multiplier_power)
qed

text \<open>The first retry: \<open>1 ** 1.85 = 1\<close>, and a jitter below 1 floors to 0.\<close>

lemma retry_delay_first: "retry_delay 0 0 = 0"
  by (simp add: retry_delay_def RETRY_MIN_def)

text \<open>The second retry at the least jitter: \<open>2 ** 1.85 * 0.75\<close> is about 2.70.\<close>

lemma retry_delay_second: "retry_delay 1 0 = 2"
proof -
  have "8 / 3 \<le> (2::real) powr (37 / 20)"
    by (rule powr_lower) (simp_all add: power_divide)
  moreover have "(2::real) powr (37 / 20) < 4"
    by (rule powr_upper) simp_all
  ultimately have "\<lfloor>(2::real) powr (37 / 20) * 3 / 4\<rfloor> = 2"
    by (simp add: floor_eq_iff)
  then show ?thesis
    by (simp add: retry_delay_def RETRY_MIN_def multiplier_fraction)
qed

text \<open>The fourth retry: \<open>4 ** 1.85\<close> is about 12.99, so even the least jitter gives 9.\<close>

lemma retry_delay_fourth: "8 \<le> retry_delay 3 random" if "0 \<le> random"
proof -
  have "11 \<le> (4::real) powr (37 / 20)"
    by (rule powr_lower) simp_all
  then have "8 \<le> (4::real) powr (37 / 20) * (3 / 4)"
    by simp
  also have "(4::real) powr (37 / 20) * (3 / 4)
      \<le> (4::real) powr (37 / 20) * (3 / 4 + random / 4)"
    using that by (intro mult_left_mono) simp_all
  finally have "8 \<le> (4::real) powr (37 / 20) * (3 / 4 + random / 4)" .
  then have "8 \<le> \<lfloor>(4::real) powr (37 / 20) * (3 / 4 + random / 4)\<rfloor>"
    by (simp add: le_floor_iff)
  then have "8 \<le> nat \<lfloor>(4::real) powr (37 / 20) * (3 / 4 + random / 4)\<rfloor>"
    by linarith
  then show ?thesis
    by (simp add: retry_delay_def RETRY_MIN_def multiplier_fraction)
qed

section \<open>JavaScript arrays\<close>

lemma js_get_js_set_same: "js_get (js_set q i v) i = v"
  by (simp add: js_get_def js_set_def nth_append)

section \<open>The search loops\<close>

lemma higher_loop_Some:
  "higher_loop q n i = Some j \<Longrightarrow> js_get q j = Null \<and> i \<le> j \<and> j < n"
proof (induction q n i rule: higher_loop.induct)
  case (1 q qsize higher_index)
  show ?case
  proof (cases "higher_index < qsize \<and> js_get q higher_index \<noteq> Null")
    case True
    with "1.prems" have "higher_loop q qsize (higher_index + 1) = Some j"
      by (simp add: higher_loop.simps [of q qsize higher_index])
    with True "1.IH" show ?thesis by fastforce
  next
    case False
    with "1.prems" show ?thesis
      by (auto simp: higher_loop.simps [of q qsize higher_index] split: if_splits)
  qed
qed

lemma lower_loop_Some:
  "lower_loop q i = Some j \<Longrightarrow> js_get q j = Null \<and> 0 < j \<and> j \<le> i"
proof (induction q i rule: lower_loop.induct)
  case (1 q lower_index)
  show ?case
  proof (cases "lower_index > 0 \<and> js_get q lower_index \<noteq> Null")
    case True
    with "1.prems" have "lower_loop q (lower_index - 1) = Some j"
      by (simp add: lower_loop.simps [of q lower_index])
    with True "1.IH" show ?thesis by fastforce
  next
    case False
    with "1.prems" show ?thesis
      by (auto simp: lower_loop.simps [of q lower_index] split: if_splits)
  qed
qed

lemma find_closest_from_Some:
  "find_closest_from s delay = Some i \<Longrightarrow> js_get (queue s) i = Null \<and> i \<le> queue_size s"
  by (auto simp: find_closest_from_def exact_index_def split: if_splits option.splits
      dest!: higher_loop_Some lower_loop_Some)

section \<open>What each method leaves unchanged\<close>

lemma push_loop_frame:
  "chat_active (push_loop ps k j s) = chat_active s \<and>
   load_threshold (push_loop ps k j s) = load_threshold s \<and>
   resolved (push_loop ps k j s) = resolved s \<and>
   queue_size (push_loop ps k j s) = queue_size s \<and>
   step_index (push_loop ps k j s) = step_index s \<and>
   queue_count s \<le> queue_count (push_loop ps k j s)"
proof (induction ps k j s rule: push_loop.induct)
  case (1 prompts prompt_index queue_index s)
  show ?case
    using "1.IH" by (subst (1 2 3 4 5 6) push_loop.simps) (auto simp: Let_def)
qed

lemma push_prompts_to_queue_frame:
  "chat_active (push_prompts_to_queue ps s) = chat_active s"
  "load_threshold (push_prompts_to_queue ps s) = load_threshold s"
  "resolved (push_prompts_to_queue ps s) = resolved s"
  "queue_size (push_prompts_to_queue ps s) = queue_size s"
  "step_index (push_prompts_to_queue ps s) = step_index s"
  "queue_count s \<le> queue_count (push_prompts_to_queue ps s)"
  using push_loop_frame [of ps 0 0 s] by (simp_all add: push_prompts_to_queue_def)

lemma resolve_frame:
  "queue_count (resolve b s) = queue_count s"
  "load_threshold (resolve b s) = load_threshold s"
  "chat_active (resolve b s) = chat_active s"
  "queue (resolve b s) = queue s"
  "heap (resolve b s) = heap s"
  "step_index (resolve b s) = step_index s"
  "step_size_float (resolve b s) = step_size_float s"
  "aborted (resolve b s) = aborted s"
  "chat_interval (resolve b s) = chat_interval s"
  "load_interval (resolve b s) = load_interval s"
  "wait_interval (resolve b s) = wait_interval s"
  "console (resolve b s) = console s"
  by (simp_all add: resolve_def split: option.splits)

lemma resolved_resolve:
  "resolved (resolve b s) = (case resolved s of None \<Rightarrow> Some b | Some r \<Rightarrow> Some r)"
  by (simp add: resolve_def split: option.splits)

lemma abort_frame:
  "queue_count (abort s) = queue_count s"
  "load_threshold (abort s) = load_threshold s"
  "chat_active (abort s) = chat_active s"
  "queue (abort s) = queue s"
  "heap (abort s) = heap s"
  "step_index (abort s) = step_index s"
  "step_size_float (abort s) = step_size_float s"
  "console (abort s) = console s"
  by (simp_all add: abort_def resolve_frame)

lemma abort_effect:
  "aborted (abort s)"
  "\<not> chat_interval (abort s)"
  "\<not> load_interval (abort s)"
  "\<not> wait_interval (abort s)"
  "resolved (abort s) = (case resolved s of None \<Rightarrow> Some False | Some r \<Rightarrow> Some r)"
  by (simp_all add: abort_def resolve_frame resolved_resolve)

lemma schedule_prompt_frame:
  "queue_count (schedule_prompt p random s) = queue_count s"
  "load_threshold (schedule_prompt p random s) = load_threshold s"
  "chat_active (schedule_prompt p random s) = chat_active s"
  "resolved (schedule_prompt p random s) = resolved s"
  "step_index (schedule_prompt p random s) = step_index s"
  "aborted (schedule_prompt p random s) = aborted s"
  "chat_interval (schedule_prompt p random s) = chat_interval s"
  "load_interval (schedule_prompt p random s) = load_interval s"
  "wait_interval (schedule_prompt p random s) = wait_interval s"
  "step_size_float (schedule_prompt p random s) = step_size_float s"
  by (simp_all add: schedule_prompt_def split: option.splits)

lemma update_step_size_frame:
  "queue_count (update_step_size v s) = queue_count s"
  "load_threshold (update_step_size v s) = load_threshold s"
  "chat_active (update_step_size v s) = chat_active s"
  "resolved (update_step_size v s) = resolved s"
  "step_index (update_step_size v s) = step_index s"
  "queue (update_step_size v s) = queue s"
  "queue_size (update_step_size v s) = queue_size s"
  "heap (update_step_size v s) = heap s"
  "console (update_step_size v s) = console s"
  "aborted (update_step_size v s) = aborted s"
  "chat_interval (update_step_size v s) = chat_interval s"
  "load_interval (update_step_size v s) = load_interval s"
  "wait_interval (update_step_size v s) = wait_interval s"
  by (simp_all add: update_step_size_def)

lemma tick_tail_frame:
  "queue_count (shift_queue (increment_step_index s)) = queue_count s"
  "load_threshold (shift_queue (increment_step_index s)) = load_threshold s"
  "chat_active (shift_queue (increment_step_index s)) = chat_active s"
  "resolved (shift_queue (increment_step_index s)) = resolved s"
  "step_index (shift_queue (increment_step_index s)) = step_index s"
  by (simp_all add: shift_queue_def increment_step_index_def)

lemma settle_frame:
  assumes "settle v result random s = Inr s'"
  shows "queue_count s' = queue_count s" "load_threshold s' = load_threshold s"
    "chat_active s' = chat_active s" "step_index s' = step_index s"
    "resolved s' = Some True \<Longrightarrow> resolved s = Some True"
  using assms
  by (auto simp: settle_def schedule_prompt_frame update_step_size_frame abort_frame
      abort_effect
      split: outcome.splits thrown.splits if_splits slot.splits option.splits)

lemma send_finish_frame:
  assumes "send_finish v result random s = Inr s'"
  shows "queue_count s' = queue_count s" "load_threshold s' = load_threshold s"
    "chat_active s' = chat_active s - 1" "step_index s' = step_index s"
    "resolved s' = Some True \<Longrightarrow> resolved s = Some True"
  using assms settle_frame [of v result random s]
  by (auto simp: send_finish_def split: sum.splits)

lemma settle_total: "\<exists>s'. settle (Ref p) result random s = Inr s'"
  by (simp add: settle_def split: outcome.splits thrown.splits)

lemma send_finish_total: "\<exists>s'. send_finish (Ref p) result random s = Inr s'"
  using settle_total [of p result random s] by (auto simp: send_finish_def)

section \<open>Events and runs\<close>

lemma step_queue_count:
  assumes "step e w = Inr w'"
  shows "queue_count (prompter w) \<le> queue_count (prompter w')"
proof (cases e)
  case (LoadSettled response)
  with assms show ?thesis
    by (auto simp: load_settled_def setup_wait_interval_def push_prompts_to_queue_frame
        split: if_splits)
next
  case (ChatSettled i result random)
  with assms show ?thesis
    by (auto simp: chat_settled_def tick_tail_frame split: if_splits sum.splits
        dest: send_finish_frame(1))
qed (use assms in \<open>auto simp: load_tick_def chat_tick_def send_start_def tick_tail_frame
      wait_tick_def resolve_frame split: if_splits\<close>)

lemma step_queue_count_same:
  assumes "step e w = Inr w'" and "\<And>response. e \<noteq> LoadSettled response"
  shows "queue_count (prompter w') = queue_count (prompter w)"
proof (cases e)
  case (LoadSettled response)
  with assms(2) show ?thesis by blast
next
  case (ChatSettled i result random)
  with assms(1) show ?thesis
    by (auto simp: chat_settled_def tick_tail_frame split: if_splits sum.splits
        dest: send_finish_frame(1))
qed (use assms(1) in \<open>auto simp: load_tick_def chat_tick_def send_start_def tick_tail_frame
      wait_tick_def resolve_frame split: if_splits\<close>)

lemma step_load_threshold:
  assumes "step e w = Inr w'"
  shows "load_threshold (prompter w') = load_threshold (prompter w)"
proof (cases e)
  case (LoadSettled response)
  with assms show ?thesis
    by (auto simp: load_settled_def setup_wait_interval_def push_prompts_to_queue_frame
        split: if_splits)
next
  case (ChatSettled i result random)
  with assms show ?thesis
    by (auto simp: chat_settled_def tick_tail_frame split: if_splits sum.splits
        dest: send_finish_frame(2))
qed (use assms in \<open>auto simp: load_tick_def chat_tick_def send_start_def tick_tail_frame
      wait_tick_def resolve_frame split: if_splits\<close>)

lemma step_in_flight:
  assumes "step e w = Inr w'"
    and "chat_active (prompter w) = int (length (in_flight w))"
  shows "chat_active (prompter w') = int (length (in_flight w'))"
proof (cases e)
  case (LoadSettled response)
  with assms show ?thesis
    by (auto simp: load_settled_def setup_wait_interval_def push_prompts_to_queue_frame
        split: if_splits)
next
  case (ChatSettled i result random)
  with assms show ?thesis
    by (auto simp: chat_settled_def tick_tail_frame split: if_splits sum.splits
        dest!: send_finish_frame(3))
qed (use assms in \<open>auto simp: load_tick_def chat_tick_def send_start_def tick_tail_frame
      wait_tick_def resolve_frame split: if_splits\<close>)

lemma step_resolved_true:
  assumes "step e w = Inr w'"
    and "resolved (prompter w') = Some True" and "resolved (prompter w) \<noteq> Some True"
  shows "e = WaitTick \<and> wait_interval (prompter w) \<and> chat_active (prompter w) = 0"
proof (cases e)
  case (LoadSettled response)
  with assms show ?thesis
    by (auto simp: load_settled_def setup_wait_interval_def push_prompts_to_queue_frame
        split: if_splits)
next
  case (ChatSettled i result random)
  with assms show ?thesis
    by (auto simp: chat_settled_def tick_tail_frame split: if_splits sum.splits
        dest: send_finish_frame(5))
qed (use assms in \<open>auto simp: load_tick_def chat_tick_def send_start_def tick_tail_frame
      wait_tick_def resolve_frame split: if_splits\<close>)

lemma run_queue_count:
  "run es w = Inr w' \<Longrightarrow> queue_count (prompter w) \<le> queue_count (prompter w')"
proof (induction es arbitrary: w)
  case Nil
  then show ?case by simp
next
  case (Cons e es)
  then obtain w1 where first: "step e w = Inr w1" and rest: "run es w1 = Inr w'"
    by (auto split: sum.splits)
  from step_queue_count [OF first] Cons.IH [OF rest] show ?case by simp
qed

lemma run_load_threshold:
  "run es w = Inr w' \<Longrightarrow> load_threshold (prompter w') = load_threshold (prompter w)"
proof (induction es arbitrary: w)
  case Nil
  then show ?case by simp
next
  case (Cons e es)
  then obtain w1 where first: "step e w = Inr w1" and rest: "run es w1 = Inr w'"
    by (auto split: sum.splits)
  from step_load_threshold [OF first] Cons.IH [OF rest] show ?case by simp
qed

lemma run_in_flight:
  "run es w = Inr w' \<Longrightarrow> chat_active (prompter w) = int (length (in_flight w)) \<Longrightarrow>
   chat_active (prompter w') = int (length (in_flight w'))"
proof (induction es arbitrary: w)
  case Nil
  then show ?case by simp
next
  case (Cons e es)
  then obtain w1 where first: "step e w = Inr w1" and rest: "run es w1 = Inr w'"
    by (auto split: sum.splits)
  from step_in_flight [OF first Cons.prems(2)] Cons.IH [OF rest] show ?case by simp
qed

section \<open>Shifting and placing\<close>

lemma js_get_js_set:
  "i < length q \<Longrightarrow> js_get (js_set q i v) j = (if j = i then v else js_get q j)"
  by (simp add: js_get_def js_set_def)

lemma length_js_set_inside: "i < length q \<Longrightarrow> length (js_set q i v) = length q"
  by (simp add: js_set_def)

lemma shift_loop_length:
  "qsize \<le> length q \<Longrightarrow> length (shift_loop qsize i q) = length q"
proof (induction qsize i q rule: shift_loop.induct)
  case (1 qsize queue_index q)
  show ?case
  proof (cases "int queue_index < int qsize - 1")
    case True
    with "1.prems" have inside: "queue_index < length q" by simp
    with True "1.IH" "1.prems" show ?thesis
      by (simp add: shift_loop.simps [of qsize queue_index q] length_js_set_inside)
  next
    case False
    then show ?thesis
      by (simp add: shift_loop.simps [of qsize queue_index q])
  qed
qed

lemma shift_loop_get:
  "qsize \<le> length q \<Longrightarrow>
   js_get (shift_loop qsize i q) j =
     (if i \<le> j \<and> j + 1 < qsize then js_get q (j + 1) else js_get q j)"
proof (induction qsize i q arbitrary: j rule: shift_loop.induct)
  case (1 qsize queue_index q)
  show ?case
  proof (cases "int queue_index < int qsize - 1")
    case True
    with "1.prems" have inside: "queue_index < length q" by simp
    let ?q = "js_set q queue_index (js_get q (queue_index + 1))"
    from inside "1.prems" have "qsize \<le> length ?q"
      by (simp add: length_js_set_inside)
    with True "1.IH" have
      "js_get (shift_loop qsize (queue_index + 1) ?q) j =
        (if queue_index + 1 \<le> j \<and> j + 1 < qsize then js_get ?q (j + 1) else js_get ?q j)"
      by simp
    with True inside show ?thesis
      by (auto simp: shift_loop.simps [of qsize queue_index q] js_get_js_set)
  next
    case False
    then show ?thesis
      by (auto simp: shift_loop.simps [of qsize queue_index q])
  qed
qed

text \<open>
  What \<open>shift_queue\<close> does to an array that has at least \<open>queue_size\<close> elements:
  slots \<open>[1, queue_size)\<close> move one position down, the last slot keeps its content,
  and index \<open>queue_size\<close> is set to \<open>null\<close>, which extends an array of exactly
  \<open>queue_size\<close> elements by one.
\<close>

lemma shift_queue_slots:
  assumes "queue_size s \<le> length (queue s)"
  shows "j + 1 < queue_size s \<Longrightarrow> js_get (queue (shift_queue s)) j = js_get (queue s) (j + 1)"
    and "j + 1 = queue_size s \<Longrightarrow> js_get (queue (shift_queue s)) j = js_get (queue s) j"
    and "js_get (queue (shift_queue s)) (queue_size s) = Null"
    and "length (queue (shift_queue s)) = max (length (queue s)) (queue_size s + 1)"
proof -
  let ?q = "shift_loop (queue_size s) 0 (queue s)"
  have len: "length ?q = length (queue s)"
    using assms by (rule shift_loop_length)
  have get: "js_get ?q j = (if j + 1 < queue_size s then js_get (queue s) (j + 1)
      else js_get (queue s) j)" for j
    using shift_loop_get [OF assms, of 0 j] by simp
  show "js_get (queue (shift_queue s)) (queue_size s) = Null"
    by (simp add: shift_queue_def js_get_js_set_same)
  show "length (queue (shift_queue s)) = max (length (queue s)) (queue_size s + 1)"
    using assms len by (auto simp: shift_queue_def js_set_def)
  have other: "js_get (js_set ?q (queue_size s) Null) j = js_get ?q j" if "j < queue_size s"
    using that assms len by (auto simp: js_get_def js_set_def nth_append)
  show "js_get (queue (shift_queue s)) j = js_get (queue s) (j + 1)" if "j + 1 < queue_size s"
    using that other get by (simp add: shift_queue_def)
  show "js_get (queue (shift_queue s)) j = js_get (queue s) j" if "j + 1 = queue_size s"
    using that other get by (simp add: shift_queue_def)
qed

lemma occupied_js_set:
  assumes "i < queue_size s" "i < length (queue s)" "js_get (queue s) i = Null" "v \<noteq> Null"
  shows "occupied (s\<lparr>queue := js_set (queue s) i v, queue_count := c\<rparr>) = Suc (occupied s)"
proof -
  let ?old = "{j. js_get (queue s) j \<noteq> Null} \<inter> set [0..<queue_size s]"
  let ?new = "{j. js_get (js_set (queue s) i v) j \<noteq> Null} \<inter> set [0..<queue_size s]"
  have grown: "?new = insert i ?old"
    using assms by (auto simp: js_get_js_set)
  have absent: "i \<notin> ?old" using assms(3) by simp
  have "finite ?old" by simp
  then have "card (insert i ?old) = Suc (card ?old)"
    using absent by (rule card_insert_disjoint)
  with grown have "card ?new = Suc (card ?old)"
    by (simp only:)
  then show ?thesis
    by (simp add: occupied_def distinct_length_filter)
qed

lemma js_elem_not_Null: "js_elem prompts k \<noteq> Null"
  by (simp add: js_elem_def)

lemma occupied_load_cursor: "occupied (s\<lparr>load_cursor := c\<rparr>) = occupied s"
  by (simp add: occupied_def)

lemma push_loop_keeps_counter:
  "queue_size s \<le> length (queue s) \<Longrightarrow> queue_count s = occupied s \<Longrightarrow>
   queue_count (push_loop prompts k j s) = occupied (push_loop prompts k j s)"
proof (induction prompts k j s rule: push_loop.induct)
  case (1 prompts prompt_index queue_index s)
  let ?s = "s\<lparr>queue := js_set (queue s) queue_index (js_elem prompts prompt_index),
    queue_count := queue_count s + 1\<rparr>"
  show ?case
  proof (cases "queue_index < queue_size s")
    case False
    with "1.prems" show ?thesis
      by (simp add: push_loop.simps [of prompts prompt_index queue_index s])
  next
    case inside: True
    show ?thesis
    proof (cases "js_get (queue s) queue_index = Null")
      case False
      with inside "1.IH"(2) "1.prems" show ?thesis
        by (simp add: push_loop.simps [of prompts prompt_index queue_index s])
    next
      case empty: True
      from inside "1.prems"(1) have len: "queue_index < length (queue s)" by simp
      from occupied_js_set [OF inside len empty js_elem_not_Null] "1.prems"(2)
      have counted: "queue_count ?s = occupied ?s" by simp
      from len "1.prems"(1) have shape: "queue_size ?s \<le> length (queue ?s)"
        by (simp add: length_js_set_inside)
      show ?thesis
      proof (cases "int prompt_index = int (length prompts) - 1")
        case True
        with inside empty counted show ?thesis
          by (simp add: push_loop.simps [of prompts prompt_index queue_index s]
              occupied_def)
      next
        case False
        with inside empty "1.IH"(1) [OF inside empty False shape counted] show ?thesis
          by (simp add: push_loop.simps [of prompts prompt_index queue_index s])
      qed
    qed
  qed
qed

text \<open>The loader's placement keeps the counter equal to the number of occupied slots.\<close>

lemma push_prompts_to_queue_keeps_counter:
  "queue_size s \<le> length (queue s) \<Longrightarrow> queue_count s = occupied s \<Longrightarrow>
   queue_count (push_prompts_to_queue prompts s) = occupied (push_prompts_to_queue prompts s)"
  by (simp add: push_prompts_to_queue_def push_loop_keeps_counter)

section \<open>Bounds of the throttle and of the backoff index\<close>

lemma update_step_size_round:
  "step_size_int (update_step_size v s) = round (step_size_float (update_step_size v s))"
  by (simp add: update_step_size_def)

lemma update_step_size_in_range:
  assumes "STEP_SIZE_MIN \<le> step_size_float s" "step_size_float s \<le> STEP_SIZE_MAX"
  shows "STEP_SIZE_MIN \<le> step_size_float (update_step_size v s) \<and>
    step_size_float (update_step_size v s) \<le> STEP_SIZE_MAX"
  using assms by (auto simp: update_step_size_def STEP_SIZE_MIN_def STEP_SIZE_MAX_def)

lemma update_step_size_failure_in_range:
  "STEP_SIZE_MIN \<le> step_size_float (update_step_size STEP_NEGATIVE_AMOUNT s)"
  by (simp add: update_step_size_def STEP_NEGATIVE_AMOUNT_def)

lemma exact_index_le: "exact_index s delay \<le> queue_size s"
  by (simp add: exact_index_def)

lemma retry_delay_mono:
  assumes "r \<le> r'" "0 \<le> random"
  shows "retry_delay r random \<le> retry_delay r' random"
proof -
  have "(real r + 1) powr (37 / 20) \<le> (real r' + 1) powr (37 / 20)"
    using assms(1) by (intro powr_mono2) simp_all
  then have "(real r + 1) powr (37 / 20) * (3 / 4 + random / 4)
      \<le> (real r' + 1) powr (37 / 20) * (3 / 4 + random / 4)"
    using assms(2) by (intro mult_right_mono) simp_all
  then have "\<lfloor>(real r + 1) powr (37 / 20) * (3 / 4 + random / 4)\<rfloor>
      \<le> \<lfloor>(real r' + 1) powr (37 / 20) * (3 / 4 + random / 4)\<rfloor>"
    by (rule floor_mono)
  then show ?thesis
    by (simp add: retry_delay_def RETRY_MIN_def multiplier_fraction nat_mono)
qed

lemma lower_loop_never_zero: "lower_loop q i \<noteq> Some 0"
  using lower_loop_Some [of q i 0] by auto

section \<open>The dispatch test\<close>

lemma step_step_index:
  assumes "step e w = Inr w'"
  shows "step_index (prompter w') = step_index (prompter w)"
proof (cases e)
  case (LoadSettled response)
  with assms show ?thesis
    by (auto simp: load_settled_def setup_wait_interval_def push_prompts_to_queue_frame
        split: if_splits)
next
  case (ChatSettled i result random)
  with assms show ?thesis
    by (auto simp: chat_settled_def tick_tail_frame split: if_splits sum.splits
        dest: send_finish_frame(4))
qed (use assms in \<open>auto simp: load_tick_def chat_tick_def send_start_def tick_tail_frame
      wait_tick_def resolve_frame split: if_splits\<close>)

lemma run_step_index:
  "run es w = Inr w' \<Longrightarrow> step_index (prompter w') = step_index (prompter w)"
proof (induction es arbitrary: w)
  case Nil
  then show ?case by simp
next
  case (Cons e es)
  then obtain w1 where first: "step e w = Inr w1" and rest: "run es w1 = Inr w'"
    by (auto split: sum.splits)
  from step_step_index [OF first] Cons.IH [OF rest] show ?case by simp
qed

text \<open>
  From a fresh scheduler \<open>step_index\<close> is 0 for ever, so a tick of the chat timer sends
  whenever the counter is positive and slot 0 is not \<open>null\<close>, whatever \<open>step_size_int\<close> is.
\<close>

lemma chat_tick_sends:
  assumes "run es (boot rpm h) = Inr w"
    and "chat_interval (prompter w)" and "0 < queue_count (prompter w)"
    and "js_get (queue (prompter w)) 0 \<noteq> Null"
  shows "step ChatTick w =
    Inr (w\<lparr>prompter := send_start (prompter w),
           in_flight := in_flight w @ [js_get (queue (prompter w)) 0]\<rparr>)"
proof -
  have "step_index (prompter (boot rpm h)) = 0"
    by (simp add: boot_def start_def constructor_def)
  with run_step_index [OF assms(1)] have "step_index (prompter w) = 0"
    by simp
  with assms(2-4) show ?thesis
    by (simp add: chat_tick_def)
qed

section \<open>The occupied-slot counter\<close>

text \<open>
  Claim C1: after every mutation of the timeline (\<open>push_prompts_to_queue\<close>,
  \<open>shift_queue\<close>, \<open>schedule_prompt\<close>) the counter \<open>queue_count\<close> equals the number
  of slots that are not empty.

  The code does not keep this. On a fresh scheduler with \<open>rpm = 4\<close> the loader places
  one item and counts it: counter 1, one occupied slot. Advancing that timeline drops the
  item and leaves the counter at 1 with no occupied slot; scheduling a retry of the item
  instead (first retry, least jitter) occupies a second slot and leaves the counter at 1.
\<close>

theorem C1_counter_drifts:
  "queue_count (push_prompts_to_queue [0] (constructor 4 example_heap)) = 1 \<and>
   occupied (push_prompts_to_queue [0] (constructor 4 example_heap)) = 1 \<and>
   queue_count (shift_queue (push_prompts_to_queue [0] (constructor 4 example_heap))) = 1 \<and>
   occupied (shift_queue (push_prompts_to_queue [0] (constructor 4 example_heap))) = 0 \<and>
   queue_count (schedule_prompt 0 0 (push_prompts_to_queue [0] (constructor 4 example_heap))) = 1 \<and>
   occupied (schedule_prompt 0 0 (push_prompts_to_queue [0] (constructor 4 example_heap))) = 2"
proof -
  let ?s = "push_prompts_to_queue [0] (constructor 4 example_heap)"
  have loaded: "queue_count ?s = 1 \<and> occupied ?s = 1"
    by code_simp
  have shifted: "queue_count (shift_queue ?s) = 1 \<and> occupied (shift_queue ?s) = 0"
    by code_simp
  have fresh: "retries (heap ?s 0) = 0"
    by code_simp
  have found: "find_closest_from ?s 0 = Some 1"
    by code_simp
  have "schedule_prompt 0 0 ?s =
      ?s\<lparr>queue := js_set (queue ?s) 1 (Ref 0),
         heap := (heap ?s)(0 := (heap ?s 0)\<lparr>retries := retries (heap ?s 0) + 1\<rparr>)\<rparr>"
    by (simp add: schedule_prompt_def find_closest_queue_index_def fresh found
        retry_delay_first RETRY_COUNT_def)
  moreover have
    "queue_count (?s\<lparr>queue := js_set (queue ?s) 1 (Ref 0),
         heap := (heap ?s)(0 := (heap ?s 0)\<lparr>retries := retries (heap ?s 0) + 1\<rparr>)\<rparr>) = 1 \<and>
     occupied (?s\<lparr>queue := js_set (queue ?s) 1 (Ref 0),
         heap := (heap ?s)(0 := (heap ?s 0)\<lparr>retries := retries (heap ?s 0) + 1\<rparr>)\<rparr>) = 2"
    by code_simp
  ultimately have
    "queue_count (schedule_prompt 0 0 ?s) = 1 \<and> occupied (schedule_prompt 0 0 ?s) = 2"
    by (simp only:)
  with loaded shifted show ?thesis
    by (simp only: simp_thms)
qed

section \<open>Advancing the timeline\<close>

text \<open>
  Claim C2: \<open>shift_queue\<close> shifts slots \<open>[1, capacity)\<close> into \<open>[0, capacity - 1)\<close> and
  sets the new final slot empty, without ever writing to an index greater than
  \<open>capacity - 1\<close>.

  The code writes \<open>null\<close> at index \<open>queue_size\<close>, one past the last slot. On a timeline
  of 8 slots whose last slot holds a prompt the array grows to 9 elements, and slot 7
  keeps the prompt that was also copied to slot 6.
\<close>

theorem C2_tail_write_past_capacity:
  "queue_size ((constructor 4 example_heap)\<lparr>queue := replicate 7 Null @ [Ref 0]\<rparr>) = 8 \<and>
   length (queue ((constructor 4 example_heap)\<lparr>queue := replicate 7 Null @ [Ref 0]\<rparr>)) = 8 \<and>
   queue (shift_queue ((constructor 4 example_heap)\<lparr>queue := replicate 7 Null @ [Ref 0]\<rparr>)) =
     [Null, Null, Null, Null, Null, Null, Ref 0, Ref 0, Null]"
  by code_simp

section \<open>The backoff index\<close>

text \<open>
  Claim C3: the backoff target index is
  \<open>min(floor((retries + 1)^1.85 * jitter), capacity - 1)\<close> with jitter in \<open>[0.75, 1.0)\<close>;
  for jitter 1.0 it is non-decreasing in \<open>retries\<close> and never exceeds \<open>capacity - 1\<close>.

  The code clamps at \<open>queue_size\<close>, not at \<open>queue_size - 1\<close>. With \<open>rpm = 4\<close> the
  timeline has 8 slots, and for an item with 3 retries the index is 8 both at the least
  jitter (\<open>Math.random() = 0\<close>) and at jitter 1.0. After one advance of the timeline the
  array holds \<open>null\<close> at index 8, so the search returns index 8, outside the timeline.
\<close>

theorem C3_index_reaches_capacity:
  "queue_size (constructor 4 h) = 8 \<and>
   exact_index (constructor 4 h) (retry_delay 3 0) = 8 \<and>
   exact_index (constructor 4 h) (retry_delay 3 1) = 8 \<and>
   find_closest_queue_index
     (shift_queue (constructor 4 (example_heap(0 := (example_heap 0)\<lparr>retries := 3\<rparr>)))) 0 0
     = Some 8"
proof -
  have size: "queue_size (constructor 4 h) = 8" for h
    by (simp add: constructor_def)
  have index: "exact_index (constructor 4 h) (retry_delay 3 random) = 8"
    if "0 \<le> random" for random h
    using retry_delay_fourth [OF that] by (simp add: exact_index_def size)
  let ?s = "shift_queue (constructor 4 (example_heap(0 := (example_heap 0)\<lparr>retries := 3\<rparr>)))"
  have tried: "retries (heap ?s 0) = 3"
    by (simp add: shift_queue_def constructor_def)
  have "queue_size ?s = 8"
    by (simp add: shift_queue_def constructor_def)
  with retry_delay_fourth [of 0] have clamp: "exact_index ?s (retry_delay 3 0) = 8"
    by (simp add: exact_index_def)
  have "js_get (queue ?s) 8 = Null"
    by code_simp
  with clamp have "find_closest_queue_index ?s 0 0 = Some 8"
    by (simp add: find_closest_queue_index_def find_closest_from_def tried)
  with size index [of 0] index [of 1] show ?thesis
    by simp
qed

section \<open>The nearest-free search\<close>

text \<open>
  Claim C4: the search clamps the target into \<open>[0, capacity)\<close>, returns the target slot
  if it is empty, otherwise scans upward through \<open>capacity - 1\<close> and then downward
  through index 0, and returns none exactly when every slot is occupied.

  The downward loop of the code runs while \<open>lower_index > 0\<close>: it never tests slot 0.
  On a timeline of 8 slots with slot 0 empty and slots 1 to 7 occupied, the search from
  target 3 returns none. And the clamp admits index \<open>queue_size\<close>: on a full timeline
  of 8 slots that was advanced once, the search from target 9 returns index 8.
\<close>

theorem C4_search_misses_slot_zero:
  "js_get (queue ((constructor 4 example_heap)
      \<lparr>queue := [Null, Ref 1, Ref 2, Ref 3, Ref 4, Ref 5, Ref 6, Ref 7]\<rparr>)) 0 = Null \<and>
   find_closest_from ((constructor 4 example_heap)
      \<lparr>queue := [Null, Ref 1, Ref 2, Ref 3, Ref 4, Ref 5, Ref 6, Ref 7]\<rparr>) 3 = None \<and>
   occupied (shift_queue ((constructor 4 example_heap)
      \<lparr>queue := [Ref 0, Ref 1, Ref 2, Ref 3, Ref 4, Ref 5, Ref 6, Ref 7]\<rparr>)) = 8 \<and>
   find_closest_from (shift_queue ((constructor 4 example_heap)
      \<lparr>queue := [Ref 0, Ref 1, Ref 2, Ref 3, Ref 4, Ref 5, Ref 6, Ref 7]\<rparr>)) 9 = Some 8"
  by code_simp

section \<open>The throttle step\<close>

text \<open>
  Claim C5: the throttle step starts at the configured minimum and stays within
  \<open>[1, 32]\<close> for every sequence of feedback.

  The constructor sets \<open>step_size_float\<close> to 0, below \<open>STEP_SIZE_MIN\<close>, and the success
  update only clamps from above: after the first success of a fresh scheduler the step is
  0.1, and its rounding is 0.
\<close>

theorem C5_step_starts_below_minimum:
  "step_size_float (constructor rpm h) = 0 \<and>
   step_size_float (update_step_size STEP_POSITIVE_AMOUNT (constructor rpm h)) = 0.1 \<and>
   step_size_int (update_step_size STEP_POSITIVE_AMOUNT (constructor rpm h)) = 0 \<and>
   \<not> STEP_SIZE_MIN \<le> step_size_float (update_step_size STEP_POSITIVE_AMOUNT (constructor rpm h))"
  by (simp add: update_step_size_def constructor_def STEP_POSITIVE_AMOUNT_def
      STEP_SIZE_MAX_def STEP_SIZE_MIN_def round_def)

section \<open>Retryable and fatal failures\<close>

text \<open>
  Claim C6, as stated: a failed send is retryable if and only if its error carries one of
  the codes 408, 429, 503, 529 or its message indicates a token-limit condition.

  It fails for an error that is not a \<open>NetworkError\<close>: \<open>send_prompt\<close> asks
  \<open>should_retry\<close> only under \<open>error instanceof NetworkError\<close>. A plain error whose
  message contains \<open>tokens\<close> aborts the run: the abort signal is set, the timers are
  cleared, the promise resolves \<open>false\<close>, and the prompt is not placed again.
\<close>

theorem C6_plain_error_with_tokens_is_fatal:
  "sublist ''tokens'' ''too many tokens'' \<and>
   (case send_finish (Ref 0) (Rejected (OtherErr ''too many tokens'')) 0
           (start (constructor 4 example_heap)) of
      Inl x \<Rightarrow> False
    | Inr s' \<Rightarrow>
        aborted s' \<and> resolved s' = Some False \<and> \<not> chat_interval s' \<and> \<not> load_interval s' \<and>
        queue s' = replicate 8 Null \<and> retries (heap s' 0) = 0)"
  by code_simp

text \<open>
  Claim C6, amended: a failed send takes the retry path (the throttle steps down and
  \<open>schedule_prompt\<close> runs; nothing is aborted) if and only if its error is a
  \<open>NetworkError\<close> whose code is one of 408, 429, 503, 529 or whose message contains
  \<open>tokens\<close>. Every other failure, a non-network error with any message included, calls
  \<open>abort\<close>: the signal is set, the three timers are cleared, the promise is resolved
  with \<open>false\<close> unless it was resolved before, and neither the queue, the prompt's
  \<open>retries\<close> nor the throttle step change.
\<close>

theorem C6_retryable_or_fatal:
  "\<exists>s'. send_finish (Ref p) (Rejected e) random s = Inr s' \<and>
     (if \<exists>n. e = NetworkErr n \<and>
            (code n \<in> {''408'', ''429'', ''503'', ''529''} \<or> sublist ''tokens'' (message n))
      then s' = (schedule_prompt p random (update_step_size STEP_NEGATIVE_AMOUNT s))
                  \<lparr>chat_active := chat_active s - 1\<rparr> \<and>
           aborted s' = aborted s \<and> resolved s' = resolved s \<and>
           chat_interval s' = chat_interval s \<and> load_interval s' = load_interval s \<and>
           wait_interval s' = wait_interval s
      else aborted s' \<and> \<not> chat_interval s' \<and> \<not> load_interval s' \<and> \<not> wait_interval s' \<and>
           resolved s' = (case resolved s of None \<Rightarrow> Some False | Some r \<Rightarrow> Some r) \<and>
           queue s' = queue s \<and> heap s' = heap s \<and>
           step_size_float s' = step_size_float s \<and> chat_active s' = chat_active s - 1)"
proof (cases e)
  case (NetworkErr n)
  show ?thesis
  proof (cases "should_retry n")
    case True
    with NetworkErr show ?thesis
      by (simp add: send_finish_def settle_def should_retry_def RETRY_ERRORS_def
          schedule_prompt_frame update_step_size_frame)
  next
    case False
    with NetworkErr show ?thesis
      by (simp add: send_finish_def settle_def should_retry_def RETRY_ERRORS_def
          abort_frame abort_effect)
  qed
next
  case (OtherErr m)
  then show ?thesis
    by (simp add: send_finish_def settle_def abort_frame abort_effect)
qed

theorem C6_retryable_or_fatal_witness:
  "(\<exists>s'. send_finish (Ref 0) (Rejected (NetworkErr \<lparr>message = ''slow down'', code = ''429''\<rparr>)) 0
           (start (constructor 4 example_heap)) = Inr s' \<and> \<not> aborted s' \<and> resolved s' = None) \<and>
   (\<exists>s'. send_finish (Ref 0) (Rejected (NetworkErr \<lparr>message = ''bad request'', code = ''400''\<rparr>)) 0
           (start (constructor 4 example_heap)) = Inr s' \<and> aborted s' \<and> resolved s' = Some False)"
proof -
  let ?s = "start (constructor 4 example_heap)"
  have a: "\<not> aborted ?s" and r: "resolved ?s = None"
    by code_simp+
  have yes: "\<exists>n. NetworkErr \<lparr>message = ''slow down'', code = ''429''\<rparr> = NetworkErr n \<and>
      (code n \<in> {''408'', ''429'', ''503'', ''529''} \<or> sublist ''tokens'' (message n))"
    by simp
  have no: "\<not> (\<exists>n. NetworkErr \<lparr>message = ''bad request'', code = ''400''\<rparr> = NetworkErr n \<and>
      (code n \<in> {''408'', ''429'', ''503'', ''529''} \<or> sublist ''tokens'' (message n)))"
    by (simp add: sublist_code)
  from C6_retryable_or_fatal
    [of 0 "NetworkErr \<lparr>message = ''slow down'', code = ''429''\<rparr>" 0 ?s] yes a r
  have first: "\<exists>s'. send_finish (Ref 0)
      (Rejected (NetworkErr \<lparr>message = ''slow down'', code = ''429''\<rparr>)) 0 ?s = Inr s' \<and>
      \<not> aborted s' \<and> resolved s' = None"
    by (simp only: if_True) metis
  from C6_retryable_or_fatal
    [of 0 "NetworkErr \<lparr>message = ''bad request'', code = ''400''\<rparr>" 0 ?s] no r
  have second: "\<exists>s'. send_finish (Ref 0)
      (Rejected (NetworkErr \<lparr>message = ''bad request'', code = ''400''\<rparr>)) 0 ?s = Inr s' \<and>
      aborted s' \<and> resolved s' = Some False"
    by (simp only: if_False option.case) metis
  from first second show ?thesis by (rule conjI)
qed

section \<open>Retry placement\<close>

text \<open>
  What \<open>schedule_prompt\<close> does, in terms of what the search returns: it writes the
  prompt at the returned index, which held \<open>null\<close>, and increments \<open>retries\<close>; when the
  search returns \<open>null\<close>, or \<open>retries\<close> is 10 or more, it writes nothing and reports.
\<close>

lemma schedule_prompt_cases:
  "(retries (heap s p) < 10 \<longrightarrow> find_closest_queue_index s p random = Some i \<longrightarrow>
      js_get (queue s) i = Null \<and>
      queue (schedule_prompt p random s) = js_set (queue s) i (Ref p) \<and>
      js_get (queue (schedule_prompt p random s)) i = Ref p \<and>
      retries (heap (schedule_prompt p random s) p) = retries (heap s p) + 1 \<and>
      console (schedule_prompt p random s) = console s) \<and>
   (retries (heap s p) < 10 \<longrightarrow> find_closest_queue_index s p random = None \<longrightarrow>
      queue (schedule_prompt p random s) = queue s \<and>
      heap (schedule_prompt p random s) = heap s \<and>
      console (schedule_prompt p random s) = console s @ [CouldntFindClosestIndex p]) \<and>
   (10 \<le> retries (heap s p) \<longrightarrow>
      queue (schedule_prompt p random s) = queue s \<and>
      heap (schedule_prompt p random s) = heap s \<and>
      console (schedule_prompt p random s) = console s @ [ReachedMaximumRetries p])"
proof (intro conjI impI)
  assume "retries (heap s p) < 10" and found: "find_closest_queue_index s p random = Some i"
  then have eq: "schedule_prompt p random s =
      s\<lparr>queue := js_set (queue s) i (Ref p),
        heap := (heap s)(p := (heap s p)\<lparr>retries := retries (heap s p) + 1\<rparr>)\<rparr>"
    by (simp add: schedule_prompt_def RETRY_COUNT_def)
  from found show "js_get (queue s) i = Null"
    by (simp add: find_closest_queue_index_def find_closest_from_Some)
  from eq show "queue (schedule_prompt p random s) = js_set (queue s) i (Ref p)"
    by simp
  from eq show "js_get (queue (schedule_prompt p random s)) i = Ref p"
    by (simp add: js_get_js_set_same)
  from eq show "retries (heap (schedule_prompt p random s) p) = retries (heap s p) + 1"
    by simp
  from eq show "console (schedule_prompt p random s) = console s"
    by simp
next
  assume "retries (heap s p) < 10" and "find_closest_queue_index s p random = None"
  then have eq: "schedule_prompt p random s =
      s\<lparr>console := console s @ [CouldntFindClosestIndex p]\<rparr>"
    by (simp add: schedule_prompt_def RETRY_COUNT_def)
  from eq show "queue (schedule_prompt p random s) = queue s" by simp
  from eq show "heap (schedule_prompt p random s) = heap s" by simp
  from eq show "console (schedule_prompt p random s) = console s @ [CouldntFindClosestIndex p]"
    by simp
next
  assume "10 \<le> retries (heap s p)"
  then have eq: "schedule_prompt p random s =
      s\<lparr>console := console s @ [ReachedMaximumRetries p]\<rparr>"
    by (simp add: schedule_prompt_def RETRY_COUNT_def)
  from eq show "queue (schedule_prompt p random s) = queue s" by simp
  from eq show "heap (schedule_prompt p random s) = heap s" by simp
  from eq show "console (schedule_prompt p random s) = console s @ [ReachedMaximumRetries p]"
    by simp
qed

text \<open>
  Claim C7: on a retryable failure of an item with \<open>retries < 10\<close> the item is placed
  at the nearest free slot and its \<open>retries\<close> counter is incremented; if no free slot is
  found the item is dropped and reported; an item whose \<open>retries\<close> reached 10 is never
  placed again.

  The code does not keep the first two parts, because of the search it calls. With
  \<open>rpm = 4\<close>, after one advance of an empty timeline, an item with 3 retries is written
  at index 8, one past the last slot: its \<open>retries\<close> becomes 4, nothing is reported, no
  slot of the timeline is occupied, and the next advance erases it. And on a timeline
  whose slot 0 is empty and whose slots 1 to 7 are occupied, an item with 1 retry is
  dropped and reported although a slot is free.
\<close>

theorem C7_retry_lost_or_dropped:
  "retries (heap (shift_queue (constructor 4
      (example_heap(0 := (example_heap 0)\<lparr>retries := 3\<rparr>)))) 0) = 3 \<and>
   queue_size (shift_queue (constructor 4
      (example_heap(0 := (example_heap 0)\<lparr>retries := 3\<rparr>)))) = 8 \<and>
   find_closest_queue_index (shift_queue (constructor 4
      (example_heap(0 := (example_heap 0)\<lparr>retries := 3\<rparr>)))) 0 0 = Some 8 \<and>
   js_get (queue (schedule_prompt 0 0 (shift_queue (constructor 4
      (example_heap(0 := (example_heap 0)\<lparr>retries := 3\<rparr>)))))) 8 = Ref 0 \<and>
   retries (heap (schedule_prompt 0 0 (shift_queue (constructor 4
      (example_heap(0 := (example_heap 0)\<lparr>retries := 3\<rparr>))))) 0) = 4 \<and>
   console (schedule_prompt 0 0 (shift_queue (constructor 4
      (example_heap(0 := (example_heap 0)\<lparr>retries := 3\<rparr>))))) = [] \<and>
   occupied (schedule_prompt 0 0 (shift_queue (constructor 4
      (example_heap(0 := (example_heap 0)\<lparr>retries := 3\<rparr>))))) = 0 \<and>
   queue (shift_queue (schedule_prompt 0 0 (shift_queue (constructor 4
      (example_heap(0 := (example_heap 0)\<lparr>retries := 3\<rparr>)))))) = replicate 9 Null \<and>
   retries (heap ((constructor 4 (example_heap(0 := (example_heap 0)\<lparr>retries := 1\<rparr>)))
      \<lparr>queue := [Null, Ref 1, Ref 2, Ref 3, Ref 4, Ref 5, Ref 6, Ref 7]\<rparr>) 0) = 1 \<and>
   js_get (queue ((constructor 4 (example_heap(0 := (example_heap 0)\<lparr>retries := 1\<rparr>)))
      \<lparr>queue := [Null, Ref 1, Ref 2, Ref 3, Ref 4, Ref 5, Ref 6, Ref 7]\<rparr>)) 0 = Null \<and>
   queue (schedule_prompt 0 0
      ((constructor 4 (example_heap(0 := (example_heap 0)\<lparr>retries := 1\<rparr>)))
        \<lparr>queue := [Null, Ref 1, Ref 2, Ref 3, Ref 4, Ref 5, Ref 6, Ref 7]\<rparr>))
     = [Null, Ref 1, Ref 2, Ref 3, Ref 4, Ref 5, Ref 6, Ref 7] \<and>
   retries (heap (schedule_prompt 0 0
      ((constructor 4 (example_heap(0 := (example_heap 0)\<lparr>retries := 1\<rparr>)))
        \<lparr>queue := [Null, Ref 1, Ref 2, Ref 3, Ref 4, Ref 5, Ref 6, Ref 7]\<rparr>)) 0) = 1 \<and>
   console (schedule_prompt 0 0
      ((constructor 4 (example_heap(0 := (example_heap 0)\<lparr>retries := 1\<rparr>)))
        \<lparr>queue := [Null, Ref 1, Ref 2, Ref 3, Ref 4, Ref 5, Ref 6, Ref 7]\<rparr>))
     = [CouldntFindClosestIndex 0]"
proof -
  let ?s = "shift_queue (constructor 4 (example_heap(0 := (example_heap 0)\<lparr>retries := 3\<rparr>)))"
  let ?t = "?s\<lparr>queue := js_set (queue ?s) 8 (Ref 0),
    heap := (heap ?s)(0 := (heap ?s 0)\<lparr>retries := retries (heap ?s 0) + 1\<rparr>)\<rparr>"
  have tried: "retries (heap ?s 0) = 3"
    by (simp add: shift_queue_def constructor_def)
  have size: "queue_size ?s = 8"
    by (simp add: shift_queue_def constructor_def)
  with retry_delay_fourth [of 0] have clamp: "exact_index ?s (retry_delay 3 0) = 8"
    by (simp add: exact_index_def)
  have "js_get (queue ?s) 8 = Null"
    by code_simp
  with clamp have found: "find_closest_queue_index ?s 0 0 = Some 8"
    by (simp add: find_closest_queue_index_def find_closest_from_def tried)
  have placed: "schedule_prompt 0 0 ?s = ?t"
    by (simp add: schedule_prompt_def found tried RETRY_COUNT_def)
  have lost: "js_get (queue ?t) 8 = Ref 0 \<and> retries (heap ?t 0) = 4 \<and> console ?t = [] \<and>
      occupied ?t = 0 \<and> queue (shift_queue ?t) = replicate 9 Null"
    by code_simp
  let ?u = "(constructor 4 (example_heap(0 := (example_heap 0)\<lparr>retries := 1\<rparr>)))
    \<lparr>queue := [Null, Ref 1, Ref 2, Ref 3, Ref 4, Ref 5, Ref 6, Ref 7]\<rparr>"
  let ?v = "?u\<lparr>console := console ?u @ [CouldntFindClosestIndex 0]\<rparr>"
  have again: "retries (heap ?u 0) = 1"
    by code_simp
  have free: "js_get (queue ?u) 0 = Null"
    by code_simp
  have none: "find_closest_from ?u 2 = None"
    by code_simp
  have "find_closest_queue_index ?u 0 0 = None"
    by (simp only: find_closest_queue_index_def again retry_delay_second none)
  then have "schedule_prompt 0 0 ?u =
      (if retries (heap ?u 0) < RETRY_COUNT then ?v
       else ?u\<lparr>console := console ?u @ [ReachedMaximumRetries 0]\<rparr>)"
    by (simp only: schedule_prompt_def option.case)
  then have dropped: "schedule_prompt 0 0 ?u = ?v"
    by (simp only: again RETRY_COUNT_def) simp
  have kept: "queue ?v = [Null, Ref 1, Ref 2, Ref 3, Ref 4, Ref 5, Ref 6, Ref 7] \<and>
      retries (heap ?v 0) = 1 \<and> console ?v = [CouldntFindClosestIndex 0]"
    by code_simp
  from tried size found lost again free kept show ?thesis
    by (simp only: placed dropped simp_thms)
qed

section \<open>The skip cadence\<close>

text \<open>
  Claim C8: whenever the throttle's skip count exceeds 1, the dispatcher initiates a send
  on only 1 of every skip-count ticks.

  The code tests \<open>step_index === 0\<close>, and \<open>increment_step_index\<close> assigns
  \<open>step_size_int\<close>, never \<open>step_index\<close>: the test always holds. With \<open>rpm = 72\<close> the
  loader places a page of 18 prompts. After sixteen successful sends the step is 1.6, its
  rounding is 2 and \<open>step_size_int\<close> is 3; the next two ticks each start a send (of
  the seventeenth and of the eighteenth prompt), with the same values before both.
\<close>

theorem C8_every_tick_sends:
  "(case run ([LoadTick,
               LoadSettled \<lparr>done' = False,
                 data = [0, 1, 2, 3, 4, 5, 6, 7, 8, 9, 10, 11, 12, 13, 14, 15, 16, 17]\<rparr>] @
              concat (replicate 16 [ChatTick, ChatSettled 0 (Resolved []) 0]))
           (boot 72 example_heap) of
      Inl x \<Rightarrow> False
    | Inr w16 \<Rightarrow>
        round (step_size_float (prompter w16)) = 2 \<and>
        step_size_int (prompter w16) = 3 \<and> in_flight w16 = [] \<and>
        (case step ChatTick w16 of
           Inl x \<Rightarrow> False
         | Inr w17 \<Rightarrow>
             in_flight w17 = [Ref 16] \<and>
             (case step (ChatSettled 0 (Resolved []) 0) w17 of
                Inl x \<Rightarrow> False
              | Inr w17' \<Rightarrow>
                  round (step_size_float (prompter w17')) = 2 \<and>
                  step_size_int (prompter w17') = 3 \<and> in_flight w17' = [] \<and>
                  (case step ChatTick w17' of
                     Inl x \<Rightarrow> False
                   | Inr w18 \<Rightarrow> in_flight w18 = [Ref 17]))))"
  by code_simp

section \<open>The in-flight counter\<close>

text \<open>
  Claim C9: \<open>chat_active\<close> is incremented once when a send starts and decremented once
  when it finishes, whether \<open>runner.chat\<close> resolved or rejected with any error; the
  completion promise resolves \<open>true\<close> only at a tick of the wait timer that finds the
  counter at 0.

  Stated for a send of a prompt object, as the signature of \<open>send_prompt\<close> has it. In
  every world reached from a fresh scheduler the counter equals the number of sends that
  have not settled.
\<close>

theorem C9_in_flight_counter:
  "chat_active (send_start s) = chat_active s + 1 \<and>
   (\<exists>s'. send_finish (Ref p) result random s = Inr s' \<and> chat_active s' = chat_active s - 1) \<and>
   (\<exists>s'. send_prompt (Ref p) result random s = Inr s' \<and> chat_active s' = chat_active s) \<and>
   (run es (boot rpm h) = Inr w0 \<longrightarrow>
      chat_active (prompter w0) = int (length (in_flight w0))) \<and>
   (step e w = Inr w' \<longrightarrow> resolved (prompter w) \<noteq> Some True \<longrightarrow>
      resolved (prompter w') = Some True \<longrightarrow>
      e = WaitTick \<and> wait_interval (prompter w) \<and> chat_active (prompter w) = 0)"
proof -
  have started: "chat_active (send_start s) = chat_active s + 1"
    by (simp add: send_start_def)
  from send_finish_total [of p result random s]
  obtain s' where fin: "send_finish (Ref p) result random s = Inr s'" ..
  with send_finish_frame(3) [OF fin]
  have finished:
    "\<exists>s'. send_finish (Ref p) result random s = Inr s' \<and> chat_active s' = chat_active s - 1"
    by simp
  from send_finish_total [of p result random "send_start s"]
  obtain s'' where whole: "send_finish (Ref p) result random (send_start s) = Inr s''" ..
  with send_finish_frame(3) [OF whole]
  have balanced:
    "\<exists>s'. send_prompt (Ref p) result random s = Inr s' \<and> chat_active s' = chat_active s"
    by (simp add: send_prompt_def send_start_def)
  have "chat_active (prompter (boot rpm h)) = int (length (in_flight (boot rpm h)))"
    by (simp add: boot_def start_def constructor_def)
  then have counted: "chat_active (prompter w0) = int (length (in_flight w0))"
    if "run es (boot rpm h) = Inr w0"
    using that run_in_flight by blast
  have drained: "e = WaitTick \<and> wait_interval (prompter w) \<and> chat_active (prompter w) = 0"
    if "step e w = Inr w'" "resolved (prompter w) \<noteq> Some True"
      "resolved (prompter w') = Some True"
    using that step_resolved_true by blast
  from started finished balanced counted drained show ?thesis
    by blast
qed

theorem C9_in_flight_counter_witness:
  "\<exists>w0 w w'.
     run [LoadTick, LoadSettled \<lparr>done' = False, data = [0]\<rparr>, ChatTick] (boot 4 example_heap)
       = Inr w0 \<and>
     in_flight w0 = [Ref 0] \<and> chat_active (prompter w0) = 1 \<and>
     run [LoadTick, LoadSettled \<lparr>done' = True, data = []\<rparr>] (boot 4 example_heap) = Inr w \<and>
     step WaitTick w = Inr w' \<and>
     resolved (prompter w) \<noteq> Some True \<and> resolved (prompter w') = Some True \<and>
     wait_interval (prompter w) \<and> chat_active (prompter w) = 0"
proof -
  let ?a = "run [LoadTick, LoadSettled \<lparr>done' = False, data = [0]\<rparr>, ChatTick]
    (boot 4 example_heap)"
  let ?b = "run [LoadTick, LoadSettled \<lparr>done' = True, data = []\<rparr>] (boot 4 example_heap)"
  let ?c = "step WaitTick (projr ?b)"
  have "\<not> isl ?a" by code_simp
  then have run0: "?a = Inr (projr ?a)" by simp
  have "\<not> isl ?b" by code_simp
  then have run1: "?b = Inr (projr ?b)" by simp
  have "\<not> isl ?c" by code_simp
  then have tick: "?c = Inr (projr ?c)" by simp
  have flying: "in_flight (projr ?a) = [Ref 0]" by code_simp
  have before: "resolved (prompter (projr ?b)) \<noteq> Some True" by code_simp
  have after: "resolved (prompter (projr ?c)) = Some True" by code_simp
  note inst = C9_in_flight_counter [of _ _ _ _
      "[LoadTick, LoadSettled \<lparr>done' = False, data = [0]\<rparr>, ChatTick]" 4 example_heap
      "projr ?a" WaitTick "projr ?b" "projr ?c"]
  from inst run0 flying have "chat_active (prompter (projr ?a)) = 1"
    by simp
  moreover from inst tick before after
  have "wait_interval (prompter (projr ?b)) \<and> chat_active (prompter (projr ?b)) = 0"
    by blast
  ultimately show ?thesis
    using run0 run1 tick flying before after by blast
qed

section \<open>The counter only grows\<close>

text \<open>
  Claim C10: \<open>queue_count\<close> never decreases. Advancing the timeline, retry placement
  and the settling of a send leave it unchanged; only the loader's placement changes it,
  by incrementing; every event other than the settling of a load leaves it unchanged.
  Consequently, once the counter has reached \<open>load_threshold\<close> it stays there, and
  every later tick of the load timer returns at the backpressure check without calling
  \<open>database.load\<close>.
\<close>

theorem C10_queue_count_only_grows:
  "queue_count (shift_queue s) = queue_count s \<and>
   queue_count (schedule_prompt p random s) = queue_count s \<and>
   queue_count s \<le> queue_count (push_prompts_to_queue prompts s) \<and>
   (send_finish v result random s = Inr s' \<longrightarrow> queue_count s' = queue_count s) \<and>
   (step e w = Inr w' \<longrightarrow>
      queue_count (prompter w) \<le> queue_count (prompter w') \<and>
      ((\<forall>response. e \<noteq> LoadSettled response) \<longrightarrow>
         queue_count (prompter w') = queue_count (prompter w))) \<and>
   (run es w = Inr w'' \<longrightarrow>
      queue_count (prompter w) \<le> queue_count (prompter w'') \<and>
      (load_threshold (prompter w) \<le> queue_count (prompter w) \<longrightarrow>
         load_threshold (prompter w'') \<le> queue_count (prompter w'') \<and>
         step LoadTick w'' = Inr w''))"
proof -
  have shifted: "queue_count (shift_queue s) = queue_count s"
    by (simp add: shift_queue_def)
  have retried: "queue_count (schedule_prompt p random s) = queue_count s"
    by (rule schedule_prompt_frame)
  have loaded: "queue_count s \<le> queue_count (push_prompts_to_queue prompts s)"
    by (rule push_prompts_to_queue_frame)
  have sent: "queue_count s' = queue_count s" if "send_finish v result random s = Inr s'"
    using that by (rule send_finish_frame)
  have one: "queue_count (prompter w) \<le> queue_count (prompter w') \<and>
      ((\<forall>response. e \<noteq> LoadSettled response) \<longrightarrow>
         queue_count (prompter w') = queue_count (prompter w))"
    if "step e w = Inr w'"
    using that step_queue_count step_queue_count_same by blast
  have many: "queue_count (prompter w) \<le> queue_count (prompter w'') \<and>
      (load_threshold (prompter w) \<le> queue_count (prompter w) \<longrightarrow>
         load_threshold (prompter w'') \<le> queue_count (prompter w'') \<and>
         step LoadTick w'' = Inr w'')"
    if ran: "run es w = Inr w''"
  proof (intro conjI impI)
    show grow: "queue_count (prompter w) \<le> queue_count (prompter w'')"
      using ran by (rule run_queue_count)
    assume "load_threshold (prompter w) \<le> queue_count (prompter w)"
    with grow run_load_threshold [OF ran]
    show reached: "load_threshold (prompter w'') \<le> queue_count (prompter w'')"
      by simp
    then show "step LoadTick w'' = Inr w''"
      by (simp add: load_tick_def)
  qed
  from shifted retried loaded sent one many show ?thesis
    by blast
qed

theorem C10_queue_count_only_grows_witness:
  "\<exists>w1 w2 s3 w4.
     run [LoadTick, LoadSettled \<lparr>done' = False, data = [0]\<rparr>] (boot 4 example_heap) = Inr w1 \<and>
     load_threshold (prompter w1) \<le> queue_count (prompter w1) \<and>
     step ChatTick w1 = Inr w2 \<and>
     queue_count (prompter w2) = queue_count (prompter w1) \<and>
     send_finish (Ref 0) (Resolved []) 0 (prompter w2) = Inr s3 \<and>
     queue_count s3 = queue_count (prompter w2) \<and>
     run [ChatTick, ChatSettled 0 (Resolved []) 0, LoadTick] w1 = Inr w4 \<and>
     queue_count (prompter w1) \<le> queue_count (prompter w4) \<and>
     step LoadTick w4 = Inr w4"
proof -
  let ?a = "run [LoadTick, LoadSettled \<lparr>done' = False, data = [0]\<rparr>] (boot 4 example_heap)"
  let ?b = "step ChatTick (projr ?a)"
  let ?c = "send_finish (Ref 0) (Resolved []) 0 (prompter (projr ?b))"
  let ?d = "run [ChatTick, ChatSettled 0 (Resolved []) 0, LoadTick] (projr ?a)"
  have "\<not> isl ?a" by code_simp
  then have a: "?a = Inr (projr ?a)" by simp
  have "\<not> isl ?b" by code_simp
  then have b: "?b = Inr (projr ?b)" by simp
  have "\<not> isl ?c" by code_simp
  then have c: "?c = Inr (projr ?c)" by simp
  have "\<not> isl ?d" by code_simp
  then have d: "?d = Inr (projr ?d)" by simp
  have full: "load_threshold (prompter (projr ?a)) \<le> queue_count (prompter (projr ?a))"
    by code_simp
  have tick: "\<forall>response. ChatTick \<noteq> LoadSettled response"
    by simp
  note inst = C10_queue_count_only_grows
    [where s = "prompter (projr ?b)" and v = "Ref 0" and result = "Resolved []"
       and random = 0 and s' = "projr ?c" and e = ChatTick and w = "projr ?a"
       and w' = "projr ?b" and es = "[ChatTick, ChatSettled 0 (Resolved []) 0, LoadTick]"
       and w'' = "projr ?d"]
  from inst b tick
  have "queue_count (prompter (projr ?b)) = queue_count (prompter (projr ?a))"
    by blast
  moreover from inst c
  have "queue_count (projr ?c) = queue_count (prompter (projr ?b))"
    by blast
  moreover from inst d full
  have "queue_count (prompter (projr ?a)) \<le> queue_count (prompter (projr ?d)) \<and>
    step LoadTick (projr ?d) = Inr (projr ?d)"
    by blast
  ultimately show ?thesis
    using a b c d full by blast
qed

end
